theory Spec2Isabelle
  imports Complex_Main "HOL-Library.AList"
begin

section \<open>Data model of \<^verbatim>\<open>nnsmith/input_gen.py\<close>\<close>

text \<open>
  The functions of \<^verbatim>\<open>input_gen.py\<close> as HOL functions.  Python floats are idealised as
  reals: every arithmetic operation is exact.  An exception is the result \<open>Inl e\<close>; the
  process-wide random generator and the state of a checker are passed along explicitly.
\<close>

text \<open>
  Python exceptions that the modelled functions can raise.  \<open>ExternalError\<close> stands
  for whatever an external collaborator (the executor, the model analyser) raises; it is
  propagated unchanged.
\<close>

datatype error =
    AttributeError
  | ValueError
  | TypeError
  | IndexError
  | FileNotFoundError
  | ExternalError string

text \<open>
  Elements of a numpy array.  Finite values are idealised as reals; the three special
  floating-point values are kept apart because \<^verbatim>\<open>np.isnan\<close> distinguishes them.
\<close>

datatype fval = Fin real | PInf | NInf | NaN

fun isnan :: "fval \<Rightarrow> bool" where
  "isnan NaN = True"
| "isnan _ = False"

fun isinf :: "fval \<Rightarrow> bool" where
  "isinf PInf = True"
| "isinf NInf = True"
| "isinf _ = False"

text \<open>
  The element kinds of a tensor: the three binary floating-point formats, integers and
  booleans.  A sample is drawn as a double; \<^verbatim>\<open>astype\<close> then casts it (see \<open>astype\<close>
  below).
\<close>

datatype dtype = DFloat64 | DFloat32 | DFloat16 | DInt | DBool

record ndarray =
  nd_shape :: "nat list"
  nd_dtype :: dtype
  nd_data :: "fval list"

text \<open>\<^verbatim>\<open>ShapeVar\<close>: what an input spec stores for a tensor name.\<close>

record shape_var =
  shape :: "int list"
  dtype :: dtype

text \<open>A Python \<^verbatim>\<open>dict\<close> keyed by tensor names, in insertion order.\<close>

type_synonym 'v pydict = "(string \<times> 'v) list"

type_synonym range = "real \<times> real"

subsection \<open>\<^verbatim>\<open>has_nan\<close>\<close>

text \<open>
  \<^verbatim>\<open>
  def has_nan(output):
      for k, o in output.items():
          if np.isnan(o).any():
              return True
      return False
  \<close>
\<close>

fun has_nan :: "ndarray pydict \<Rightarrow> bool" where
  "has_nan [] = False"
| "has_nan ((k, arr) # output) =
     (if list_ex isnan (nd_data arr) then True else has_nan output)"

subsection \<open>The process-wide numpy random generator\<close>

text \<open>
  The generator is a stream of unit samples (\<^verbatim>\<open>random_sample()\<close>, each in
  \<open>[0, 1)\<close>) together with the stream that \<^verbatim>\<open>np.random.seed(s)\<close> installs for a
  seed \<open>s\<close>.  Every draw consumes the head of the stream.
\<close>

record rng =
  draws :: "nat \<Rightarrow> real"
  reseed :: "int \<Rightarrow> nat \<Rightarrow> real"

definition unit_rng :: "rng \<Rightarrow> bool" where
  "unit_rng g =
     ((\<forall>i. 0 \<le> draws g i \<and> draws g i < 1) \<and>
      (\<forall>sd i. 0 \<le> reseed g sd i \<and> reseed g sd i < 1))"

text \<open>
  \<^verbatim>\<open>np.random.seed(sd)\<close> for an integer \<open>sd\<close>: a seed outside \<open>[0, 2\<^sup>3\<^sup>2 - 1]\<close> raises
  \<^verbatim>\<open>ValueError\<close>.
\<close>

definition np_random_seed :: "int \<Rightarrow> rng \<Rightarrow> error + rng" where
  "np_random_seed sd g =
     (if 0 \<le> sd \<and> sd \<le> 2 ^ 32 - 1 then Inr (g\<lparr>draws := reseed g sd\<rparr>)
      else Inl ValueError)"

definition random_sample :: "nat \<Rightarrow> rng \<Rightarrow> real list \<times> rng" where
  "random_sample n g = (map (draws g) [0..<n], g\<lparr>draws := (\<lambda>i. draws g (i + n))\<rparr>)"

text \<open>
  \<^verbatim>\<open>np.random.uniform(low, high, size)\<close>: a negative dimension raises
  \<^verbatim>\<open>ValueError\<close>; otherwise the array holds \<open>low + (high - low) * u\<close> for as many
  unit samples \<open>u\<close> as the shape has elements.
\<close>

definition np_random_uniform ::
  "real \<Rightarrow> real \<Rightarrow> int list \<Rightarrow> rng \<Rightarrow> error + (real list \<times> rng)" where
  "np_random_uniform low high dims g =
     (if list_ex (\<lambda>d. d < 0) dims then Inl ValueError
      else (case random_sample (nat (prod_list dims)) g of
              (us, g') \<Rightarrow> Inr (map (\<lambda>u. low + (high - low) * u) us, g')))"

text \<open>
  \<^verbatim>\<open>np.random.randint(high)\<close>: an index in \<open>[0, high)\<close>, or \<^verbatim>\<open>ValueError\<close> when
  \<open>high \<le> 0\<close>.
\<close>

definition np_random_randint :: "int \<Rightarrow> rng \<Rightarrow> error + (nat \<times> rng)" where
  "np_random_randint high g =
     (if high \<le> 0 then Inl ValueError
      else (case random_sample 1 g of
              (us, g') \<Rightarrow> Inr (nat \<lfloor>hd us * of_int high\<rfloor>, g')))"

text \<open>
  The cast of a double to a narrower binary format with \<open>p\<close> significant bits and
  exponents from \<open>emin\<close> to \<open>emax\<close> (IEEE 754 round to nearest, ties to even): the value
  is rounded to a multiple of the unit in the last place of its binade (of the smallest
  binade for a subnormal), and a result beyond the largest finite value becomes an
  infinity.
\<close>

definition round_half_even :: "real \<Rightarrow> int" where
  "round_half_even z =
     (if z - of_int \<lfloor>z\<rfloor> < 1 / 2 then \<lfloor>z\<rfloor>
      else if 1 / 2 < z - of_int \<lfloor>z\<rfloor> then \<lfloor>z\<rfloor> + 1
      else if even \<lfloor>z\<rfloor> then \<lfloor>z\<rfloor> else \<lfloor>z\<rfloor> + 1)"

definition float_cast :: "int \<Rightarrow> int \<Rightarrow> int \<Rightarrow> real \<Rightarrow> fval" where
  "float_cast p emin emax x =
     (if x = 0 then Fin 0
      else (let ulp = 2 powr of_int (max emin \<lfloor>log 2 \<bar>x\<bar>\<rfloor> - p + 1);
                y = of_int (round_half_even (x / ulp)) * ulp
            in if 2 powr of_int (emax + 1) \<le> \<bar>y\<bar> then (if 0 < x then PInf else NInf)
               else Fin y))"

text \<open>
  \<^verbatim>\<open>ndarray.astype(dtype)\<close> on one sampled double: the identity for \<^verbatim>\<open>float64\<close>,
  rounding for \<^verbatim>\<open>float32\<close> and \<^verbatim>\<open>float16\<close>, truncation toward zero for an integer
  dtype (values beyond the integer range are not modelled), and non-zero to \<open>1\<close> for
  \<^verbatim>\<open>bool\<close>.
\<close>

fun astype :: "dtype \<Rightarrow> real \<Rightarrow> fval" where
  "astype DFloat64 x = Fin x"
| "astype DFloat32 x = float_cast 24 (- 126) 127 x"
| "astype DFloat16 x = float_cast 11 (- 14) 15 x"
| "astype DInt x = Fin (of_int (if 0 \<le> x then \<lfloor>x\<rfloor> else \<lceil>x\<rceil>))"
| "astype DBool x = Fin (if x = 0 then 0 else 1)"

subsection \<open>\<^verbatim>\<open>gen_one_input\<close>\<close>

text \<open>
  \<^verbatim>\<open>
  def gen_one_input(inp_spec, l, r, seed=None):
      if seed is not None:
          np.random.seed(seed)
      inp = {}
      for name, shape in inp_spec.items():
          inp[name] = np.random.uniform(
              low=l, high=r, size=shape.shape).astype(shape.dtype)
      return inp
  \<close>
  The loop is \<open>gen_one_input_loop\<close>: it threads the dictionary under construction and
  the generator, and stops at the first exception.
\<close>

fun gen_one_input_loop ::
  "shape_var pydict \<Rightarrow> real \<Rightarrow> real \<Rightarrow> ndarray pydict \<Rightarrow> rng \<Rightarrow> error + (ndarray pydict \<times> rng)"
where
  "gen_one_input_loop [] l r inp g = Inr (inp, g)"
| "gen_one_input_loop ((name, sv) # rest) l r inp g =
     (case np_random_uniform l r (shape sv) g of
        Inl e \<Rightarrow> Inl e
      | Inr (xs, g') \<Rightarrow>
          gen_one_input_loop rest l r
            (AList.update name
               \<lparr>nd_shape = map nat (shape sv), nd_dtype = dtype sv,
                nd_data = map (astype (dtype sv)) xs\<rparr> inp) g')"

definition gen_one_input ::
  "shape_var pydict \<Rightarrow> real \<Rightarrow> real \<Rightarrow> int option \<Rightarrow> rng \<Rightarrow> error + (ndarray pydict \<times> rng)"
where
  "gen_one_input inp_spec l r seed g =
     (case seed of
        None \<Rightarrow> gen_one_input_loop inp_spec l r [] g
      | Some sd \<Rightarrow>
          (case np_random_seed sd g of
             Inl e \<Rightarrow> Inl e
           | Inr g0 \<Rightarrow> gen_one_input_loop inp_spec l r [] g0))"

subsection \<open>\<^verbatim>\<open>gen_one_input_rngs\<close>\<close>

text \<open>
  The argument \<^verbatim>\<open>rngs\<close> is \<^verbatim>\<open>None\<close>, a list of ranges, or the path of a pickled
  file; \<^verbatim>\<open>inp_spec\<close> is a dictionary or the path of a model file.  The file system and
  the model analyser are external: \<open>pickle_load\<close> maps a path to the pickled object
  (\<^verbatim>\<open>None\<close> or a list of ranges, which is what the command-line entry point dumps), and
  \<open>analyze_path\<close> is \<^verbatim>\<open>analyze_onnx_io(get_onnx_proto(path))[0]\<close>.

  \<^verbatim>\<open>
  def gen_one_input_rngs(inp_spec, rngs, seed=None):
      if rngs is None:
          rngs = [(0, 1)]
      elif isinstance(rngs, str):
          rngs = pickle.load(open(rngs, 'rb'))
      if isinstance(inp_spec, str):
          inp_spec = DiffTestBackend.analyze_onnx_io(
              DiffTestBackend.get_onnx_proto(inp_spec))[0]
      return gen_one_input(inp_spec, *rngs[np.random.randint(len(rngs))], seed)
  \<close>
\<close>

datatype rngs_arg = RngsNone | RngsList "range list" | RngsPath string

datatype spec_arg = SpecDict "shape_var pydict" | SpecPath string

record externals =
  pickle_load :: "string \<Rightarrow> (range list option) option"
  analyze_path :: "string \<Rightarrow> error + shape_var pydict"

definition resolve_rngs :: "externals \<Rightarrow> rngs_arg \<Rightarrow> error + range list option" where
  "resolve_rngs ext rngs =
     (case rngs of
        RngsNone \<Rightarrow> Inr (Some [(0, 1)])
      | RngsList rs \<Rightarrow> Inr (Some rs)
      | RngsPath p \<Rightarrow>
          (case pickle_load ext p of
             None \<Rightarrow> Inl FileNotFoundError
           | Some obj \<Rightarrow> Inr obj))"

definition resolve_spec :: "externals \<Rightarrow> spec_arg \<Rightarrow> error + shape_var pydict" where
  "resolve_spec ext inp_spec =
     (case inp_spec of SpecDict d \<Rightarrow> Inr d | SpecPath p \<Rightarrow> analyze_path ext p)"

definition gen_one_input_rngs ::
  "externals \<Rightarrow> spec_arg \<Rightarrow> rngs_arg \<Rightarrow> int option \<Rightarrow> rng \<Rightarrow> error + (ndarray pydict \<times> rng)"
where
  "gen_one_input_rngs ext inp_spec rngs seed g =
     (case resolve_rngs ext rngs of
        Inl e \<Rightarrow> Inl e
      | Inr obj \<Rightarrow>
          (case resolve_spec ext inp_spec of
             Inl e \<Rightarrow> Inl e
           | Inr d \<Rightarrow>
               (case obj of
                  None \<Rightarrow> Inl TypeError
                | Some rs \<Rightarrow>
                    (case np_random_randint (int (length rs)) g of
                       Inl e \<Rightarrow> Inl e
                     | Inr (i, g') \<Rightarrow>
                         (if i < length rs
                          then gen_one_input d (fst (rs ! i)) (snd (rs ! i)) seed g'
                          else Inl IndexError)))))"

subsection \<open>The NaN checker interface and \<^verbatim>\<open>ORTNaNChecker\<close>\<close>

text \<open>
  \<^verbatim>\<open>NaNChecker\<close> is an interface of two methods.  A checker is stateful (it samples
  from the process-wide generator and runs an executor), so both methods pass a state
  \<open>'s\<close> along; an exception ends the computation with \<open>Inl\<close>.
\<close>

record ('m, 's) nan_checker =
  load_model :: "'m \<Rightarrow> 's \<Rightarrow> error + 's"
  no_nan :: "real \<Rightarrow> real \<Rightarrow> 's \<Rightarrow> error + (bool \<times> 's)"

text \<open>
  The attributes of an \<^verbatim>\<open>ORTNaNChecker\<close> that never change after construction
  (\<open>ort_config\<close>; the executor \<^verbatim>\<open>rf_exe\<close> is its \<open>predict\<close> method, which may keep a
  state \<open>'x\<close> of its own, and \<^verbatim>\<open>DiffTestBackend.analyze_onnx_io(model)[0]\<close> is external),
  and the state a call can change (\<open>ort_state\<close>).  The attributes \<^verbatim>\<open>model\<close> and
  \<^verbatim>\<open>inp_spec\<close> do not exist before \<^verbatim>\<open>load_model\<close>: reading them then raises
  \<^verbatim>\<open>AttributeError\<close>.
\<close>

record ('m, 'x) ort_config =
  max_rng_trials :: int
  THRES :: real
  predict :: "'m \<Rightarrow> ndarray pydict \<Rightarrow> 'x \<Rightarrow> error + (ndarray pydict \<times> 'x)"
  analyze_onnx_io :: "'m \<Rightarrow> error + shape_var pydict"

record ('m, 'x) ort_state =
  model :: "'m option"
  inp_spec :: "shape_var pydict option"
  np_random :: rng
  rf_exe :: 'x

text \<open>
  \<^verbatim>\<open>
  def load_model(self, model):
      self.model = model
      self.inp_spec = DiffTestBackend.analyze_onnx_io(model)[0]
  \<close>
\<close>

definition ort_load_model ::
  "('m, 'x) ort_config \<Rightarrow> 'm \<Rightarrow> ('m, 'x) ort_state \<Rightarrow> error + ('m, 'x) ort_state" where
  "ort_load_model cfg m s =
     (case analyze_onnx_io cfg m of
        Inl e \<Rightarrow> Inl e
      | Inr sp \<Rightarrow> Inr (s\<lparr>model := Some m, inp_spec := Some sp\<rparr>))"

text \<open>
  \<^verbatim>\<open>
  def no_nan(self, l, r):
      succ = 0
      for ntrials in range(self.max_rng_trials):
          inp = gen_one_input(self.inp_spec, l, r)
          out = self.rf_exe.predict(self.model, inp)
          succ += not has_nan(out)
          remain = self.max_rng_trials - ntrials - 1
          if (succ + remain) / self.max_rng_trials < self.THRES:
              return False  # fast failure
      return True  # succ / (ntrials + 1) >= self.THRES
  \<close>
  \<open>no_nan_loop\<close> is the \<^verbatim>\<open>for\<close> loop over the remaining values of \<^verbatim>\<open>ntrials\<close>.
\<close>

fun no_nan_loop ::
  "('m, 'x) ort_config \<Rightarrow> real \<Rightarrow> real \<Rightarrow> int list \<Rightarrow> int \<Rightarrow> ('m, 'x) ort_state \<Rightarrow>
   error + (bool \<times> ('m, 'x) ort_state)"
where
  "no_nan_loop cfg l r [] succ s = Inr (True, s)"
| "no_nan_loop cfg l r (ntrials # rest) succ s =
     (case inp_spec s of
        None \<Rightarrow> Inl AttributeError
      | Some sp \<Rightarrow>
          (case gen_one_input sp l r None (np_random s) of
             Inl e \<Rightarrow> Inl e
           | Inr (inp, g') \<Rightarrow>
               (case model s of
                  None \<Rightarrow> Inl AttributeError
                | Some m \<Rightarrow>
                    (case predict cfg m inp (rf_exe s) of
                       Inl e \<Rightarrow> Inl e
                     | Inr (out, x') \<Rightarrow>
                         (let succ' = succ + (if has_nan out then 0 else 1);
                              remain = max_rng_trials cfg - ntrials - 1;
                              s' = s\<lparr>np_random := g', rf_exe := x'\<rparr>
                          in if (of_int (succ' + remain) :: real) / of_int (max_rng_trials cfg)
                                  < THRES cfg
                             then Inr (False, s')
                             else no_nan_loop cfg l r rest succ' s')))))"

text \<open>\<^verbatim>\<open>range(n)\<close>: the integers \<open>0, \<dots>, n - 1\<close>, none when \<open>n \<le> 0\<close>.\<close>

definition py_range :: "int \<Rightarrow> int list" where
  "py_range n = [0..n - 1]"

definition ort_no_nan ::
  "('m, 'x) ort_config \<Rightarrow> real \<Rightarrow> real \<Rightarrow> ('m, 'x) ort_state \<Rightarrow>
   error + (bool \<times> ('m, 'x) ort_state)" where
  "ort_no_nan cfg l r s = no_nan_loop cfg l r (py_range (max_rng_trials cfg)) 0 s"

definition ORTNaNChecker :: "('m, 'x) ort_config \<Rightarrow> ('m, ('m, 'x) ort_state) nan_checker" where
  "ORTNaNChecker cfg = \<lparr>load_model = ort_load_model cfg, no_nan = ort_no_nan cfg\<rparr>"


subsection \<open>\<^verbatim>\<open>InputGenV3\<close>: the range search\<close>

text \<open>The class constants \<^verbatim>\<open>L = -10\<close>, \<^verbatim>\<open>R = 10\<close> and \<^verbatim>\<open>EPS = 1e-3\<close>.\<close>

definition L :: real where "L = - 10"

definition R :: real where "R = 10"

definition EPS :: real where "EPS = 1 / 1000"

text \<open>
  The seed points of the search are \<^verbatim>\<open>a = np.linspace(-1, 1, 10)\<close>.  They are
  doubles: with \<open>step\<close> the double nearest to \<open>2 / 9\<close>, point \<open>i\<close> is the double
  nearest to \<open>i * step\<close>, plus \<open>- 1\<close>, rounded again, and the last point is set to \<open>1\<close>.
  In decimal notation they print as
  \<^verbatim>\<open>-1.0, -0.7777777777777778, -0.5555555555555556, -0.33333333333333337,
  -0.11111111111111116, 0.11111111111111116, 0.33333333333333326,
  0.5555555555555554, 0.7777777777777777, 1.0\<close>;
  the list below gives each double as the rational number it is.
\<close>

definition seed_points :: "real list" where
  "seed_points =
     [- 1,
      - (7005599420354105 / 9007199254740992),
      - (2501999792983609 / 4503599627370496),
      - (3002399751580331 / 9007199254740992),
      - (250199979298361 / 2251799813685248),
      250199979298361 / 2251799813685248,
      1501199875790165 / 4503599627370496,
      312749974122951 / 562949953421312,
      875699927544263 / 1125899906842624,
      1]"

text \<open>
  \<^verbatim>\<open>
  def binary_search(l, r, checker, return_on_first=True):
      if l == r or checker(l):
          return l
      while r - l > self.EPS:
          mid = (l + r) / 2
          if checker(mid):
              r = mid
              if return_on_first:
                  return r
          else:
              l = mid
      return r
  \<close>
  \<open>bs_loop\<close> is the \<^verbatim>\<open>while\<close> loop.  It terminates because the window \<open>r - l\<close> is
  halved by every iteration that does not return.
\<close>

function bs_loop ::
  "(real \<Rightarrow> 's \<Rightarrow> error + (bool \<times> 's)) \<Rightarrow> bool \<Rightarrow> real \<Rightarrow> real \<Rightarrow> 's \<Rightarrow> error + (real \<times> 's)"
where
  "bs_loop checker return_on_first l r s =
     (if r - l > EPS then
        (case checker ((l + r) / 2) s of
           Inl e \<Rightarrow> Inl e
         | Inr (ok, s') \<Rightarrow>
             (if ok then
                (if return_on_first then Inr ((l + r) / 2, s')
                 else bs_loop checker return_on_first l ((l + r) / 2) s')
              else bs_loop checker return_on_first ((l + r) / 2) r s'))
      else Inr (r, s))"
  by pat_completeness auto
termination
proof (relation "measure (\<lambda>(checker, return_on_first, l, r, s). nat \<lceil>(r - l) / EPS\<rceil>)")
  show "wf (measure (\<lambda>(checker :: real \<Rightarrow> 's \<Rightarrow> error + (bool \<times> 's), return_on_first :: bool,
                        l :: real, r :: real, s :: 's). nat \<lceil>(r - l) / EPS\<rceil>))"
    by simp
next
  have halve: "nat \<lceil>(w / 2) / EPS\<rceil> < nat \<lceil>w / EPS\<rceil>" if "EPS < w" for w :: real
  proof -
    define x where "x = w / EPS"
    have x1: "1 < x" using that by (simp add: x_def EPS_def)
    then have c2: "2 \<le> \<lceil>x\<rceil>" by linarith
    have "x \<le> of_int \<lceil>x\<rceil>" by linarith
    with c2 x1 have "x / 2 \<le> of_int \<lceil>x\<rceil> - 1" by linarith
    then have "\<lceil>x / 2\<rceil> < \<lceil>x\<rceil>" by (simp add: ceiling_less_iff)
    moreover have "(w / 2) / EPS = x / 2" by (simp add: x_def)
    ultimately have "\<lceil>(w / 2) / EPS\<rceil> < \<lceil>w / EPS\<rceil>" by (simp only: x_def)
    moreover have "0 < \<lceil>w / EPS\<rceil>" using c2 by (simp only: x_def)
    ultimately show ?thesis by linarith
  qed
  fix checker :: "real \<Rightarrow> 's \<Rightarrow> error + (bool \<times> 's)"
  fix return_on_first :: bool and l r :: real and s s' :: 's and x2 ok
  assume w: "EPS < r - l"
  have eq1: "(l + r) / 2 - l = (r - l) / 2" by (simp add: field_simps)
  have eq2: "r - (l + r) / 2 = (r - l) / 2" by (simp add: field_simps)
  show "((checker, return_on_first, l, (l + r) / 2, s'), checker, return_on_first, l, r, s)
        \<in> measure (\<lambda>(checker, return_on_first, l, r, s). nat \<lceil>(r - l) / EPS\<rceil>)"
    using halve [OF w] by (simp add: eq1)
  show "((checker, return_on_first, (l + r) / 2, r, s'), checker, return_on_first, l, r, s)
        \<in> measure (\<lambda>(checker, return_on_first, l, r, s). nat \<lceil>(r - l) / EPS\<rceil>)"
    using halve [OF w] by (simp add: eq2)
qed

declare bs_loop.simps [simp del]

definition binary_search ::
  "real \<Rightarrow> real \<Rightarrow> (real \<Rightarrow> 's \<Rightarrow> error + (bool \<times> 's)) \<Rightarrow> bool \<Rightarrow> 's \<Rightarrow> error + (real \<times> 's)"
where
  "binary_search l r checker return_on_first s =
     (if l = r then Inr (l, s)
      else (case checker l s of
              Inl e \<Rightarrow> Inl e
            | Inr (ok, s') \<Rightarrow>
                (if ok then Inr (l, s') else bs_loop checker return_on_first l r s')))"

text \<open>
  \<^verbatim>\<open>
  valid_rngs = []
  for valid_point in a:
      included = False
      for rng in valid_rngs:
          if rng[0] <= valid_point <= rng[1]:
              included = True
      if included or not self.nan_checker.no_nan(valid_point, valid_point):
          continue
      # try expand previous range
      if len(valid_rngs) > 0 and self.nan_checker.no_nan(valid_rngs[-1][0], valid_point):
          valid_rngs[-1] = (valid_rngs[-1][0], valid_point)
          continue
      last_r = self.L if len(valid_rngs) == 0 else valid_rngs[-1][1]
      l = binary_search(last_r, valid_point,
                        lambda l: self.nan_checker.no_nan(l, valid_point))
      r = -binary_search(-self.R, -valid_point,
                         lambda r: self.nan_checker.no_nan(l, -r))
      last_r = r
      valid_rngs.append((l, r))
  if len(valid_rngs) == 0:
      print('no valid range found!!!')
      valid_rngs = None
  return valid_rngs
  \<close>
  \<open>included\<close> is the inner loop, \<open>new_range\<close> the part of the body after the extension
  attempt, \<open>get_range_step\<close> one iteration of the outer loop and \<open>get_range_loop\<close> the
  outer loop over the remaining seed points.  \<open>get_range\<close> is \<^verbatim>\<open>_get_range\<close>.
\<close>

definition included :: "range list \<Rightarrow> real \<Rightarrow> bool" where
  "included valid_rngs valid_point =
     list_ex (\<lambda>rng. fst rng \<le> valid_point \<and> valid_point \<le> snd rng) valid_rngs"

definition new_range ::
  "('m, 's) nan_checker \<Rightarrow> real \<Rightarrow> range list \<Rightarrow> 's \<Rightarrow> error + (range list \<times> 's)" where
  "new_range nc valid_point valid_rngs s =
     (let last_r = (if length valid_rngs = 0 then L else snd (last valid_rngs)) in
      case binary_search last_r valid_point (\<lambda>l. no_nan nc l valid_point) True s of
        Inl e \<Rightarrow> Inl e
      | Inr (l, s1) \<Rightarrow>
          (case binary_search (- R) (- valid_point) (\<lambda>r. no_nan nc l (- r)) True s1 of
             Inl e \<Rightarrow> Inl e
           | Inr (r', s2) \<Rightarrow> Inr (valid_rngs @ [(l, - r')], s2)))"

definition get_range_step ::
  "('m, 's) nan_checker \<Rightarrow> real \<Rightarrow> range list \<Rightarrow> 's \<Rightarrow> error + (range list \<times> 's)" where
  "get_range_step nc valid_point valid_rngs s =
     (if included valid_rngs valid_point then Inr (valid_rngs, s)
      else (case no_nan nc valid_point valid_point s of
              Inl e \<Rightarrow> Inl e
            | Inr (ok, s1) \<Rightarrow>
                (if \<not> ok then Inr (valid_rngs, s1)
                 else if length valid_rngs > 0 then
                   (case no_nan nc (fst (last valid_rngs)) valid_point s1 of
                      Inl e \<Rightarrow> Inl e
                    | Inr (ext, s2) \<Rightarrow>
                        (if ext then
                           Inr (valid_rngs[length valid_rngs - 1 :=
                                  (fst (last valid_rngs), valid_point)], s2)
                         else new_range nc valid_point valid_rngs s2))
                 else new_range nc valid_point valid_rngs s1)))"

fun get_range_loop ::
  "('m, 's) nan_checker \<Rightarrow> real list \<Rightarrow> range list \<Rightarrow> 's \<Rightarrow> error + (range list \<times> 's)" where
  "get_range_loop nc [] valid_rngs s = Inr (valid_rngs, s)"
| "get_range_loop nc (valid_point # rest) valid_rngs s =
     (case get_range_step nc valid_point valid_rngs s of
        Inl e \<Rightarrow> Inl e
      | Inr (valid_rngs', s') \<Rightarrow> get_range_loop nc rest valid_rngs' s')"

definition get_range ::
  "('m, 's) nan_checker \<Rightarrow> 's \<Rightarrow> error + (range list option \<times> 's)" where
  "get_range nc s =
     (case get_range_loop nc seed_points [] s of
        Inl e \<Rightarrow> Inl e
      | Inr (valid_rngs, s') \<Rightarrow>
          Inr (if length valid_rngs = 0 then None else Some valid_rngs, s'))"

text \<open>
  \<^verbatim>\<open>
  def infer_domain(self, model):
      self.nan_checker.load_model(model)
      if self.nan_checker.no_nan(0, 1):
          rngs = [(0, 1)]
      else:
          rngs = self._get_range()
      return rngs
  \<close>
\<close>

definition infer_domain ::
  "('m, 's) nan_checker \<Rightarrow> 'm \<Rightarrow> 's \<Rightarrow> error + (range list option \<times> 's)" where
  "infer_domain nc m s =
     (case load_model nc m s of
        Inl e \<Rightarrow> Inl e
      | Inr s0 \<Rightarrow>
          (case no_nan nc 0 1 s0 of
             Inl e \<Rightarrow> Inl e
           | Inr (ok, s1) \<Rightarrow>
               (if ok then Inr (Some [(0, 1)], s1) else get_range nc s1)))"

subsection \<open>Observing and scripting checkers\<close>

text \<open>
  A checker that also logs every decision query \<open>(l, r)\<close> it receives, so that theorems
  can speak about which queries a search issued.
\<close>

definition logged :: "('m, 's) nan_checker \<Rightarrow> ('m, 's \<times> range list) nan_checker" where
  "logged nc =
     \<lparr>load_model = (\<lambda>m (s, qs).
        case load_model nc m s of Inl e \<Rightarrow> Inl e | Inr s' \<Rightarrow> Inr (s', qs)),
      no_nan = (\<lambda>l r (s, qs).
        case no_nan nc l r s of
          Inl e \<Rightarrow> Inl e
        | Inr (ok, s') \<Rightarrow> Inr (ok, (s', qs @ [(l, r)])))\<rparr>"

text \<open>
  The one-argument checker that \<^verbatim>\<open>binary_search\<close> receives, built from a pure
  predicate; its state counts the calls.
\<close>

definition counted :: "(real \<Rightarrow> bool) \<Rightarrow> real \<Rightarrow> nat \<Rightarrow> error + (bool \<times> nat)" where
  "counted P x n = Inr (P x, Suc n)"


text \<open>
  A checker given by a pure predicate on the queried range (it needs no model and keeps
  no state besides the one handed to it).
\<close>

definition pure_checker :: "(real \<Rightarrow> real \<Rightarrow> bool) \<Rightarrow> ('m, 's) nan_checker" where
  "pure_checker P =
     \<lparr>load_model = (\<lambda>m s. Inr s), no_nan = (\<lambda>l r s. Inr (P l r, s))\<rparr>"

text \<open>
  Predicates on ranges: safe exactly inside \<open>[- a, a]\<close>; safe exactly inside
  \<open>[lo, hi]\<close>; safe exactly when the range is at most \<open>w\<close> wide.  And a threshold
  predicate on points (false left of \<open>t\<close>, true from \<open>t\<close> on).
\<close>

definition safe_within :: "real \<Rightarrow> real \<Rightarrow> real \<Rightarrow> bool" where
  "safe_within a l r = (- a \<le> l \<and> r \<le> a)"

definition safe_between :: "real \<Rightarrow> real \<Rightarrow> real \<Rightarrow> real \<Rightarrow> bool" where
  "safe_between lo hi l r = (lo \<le> l \<and> r \<le> hi)"

definition narrow :: "real \<Rightarrow> real \<Rightarrow> real \<Rightarrow> bool" where
  "narrow w l r = (r - l \<le> w)"

definition from_threshold :: "real \<Rightarrow> real \<Rightarrow> bool" where
  "from_threshold t x = (t \<le> x)"

subsection \<open>Concrete generators\<close>

text \<open>The generator whose every unit sample is \<open>u\<close>, whatever the seed.\<close>

definition const_rng :: "real \<Rightarrow> rng" where
  "const_rng u = \<lparr>draws = (\<lambda>i. u), reseed = (\<lambda>sd i. u)\<rparr>"

text \<open>
  Two file systems for \<open>gen_one_input_rngs\<close>: one with no file at all, one whose
  \<^verbatim>\<open>domain.pkl\<close> holds two ranges.  Neither knows a model file.
\<close>

definition no_files :: externals where
  "no_files =
     \<lparr>pickle_load = (\<lambda>p. None),
      analyze_path = (\<lambda>p. Inl (ExternalError ''no such model''))\<rparr>"

definition one_file :: externals where
  "one_file =
     \<lparr>pickle_load =
        (\<lambda>p. if p = ''domain.pkl'' then Some (Some [(- 1, 0), (2, 3)]) else None),
      analyze_path = (\<lambda>p. Inl (ExternalError ''no such model''))\<rparr>"

subsection \<open>What a sample for a spec and a range is\<close>


subsection \<open>Reading a recorded run of \<^verbatim>\<open>no_nan\<close>\<close>




text \<open>
  A checker configuration over a trivial model type whose executor returns the same
  output for every input, and the state of a checker on which \<^verbatim>\<open>load_model\<close> has not
  been called.
\<close>

definition fixed_cfg :: "int \<Rightarrow> ndarray pydict \<Rightarrow> (unit, unit) ort_config" where
  "fixed_cfg n outs =
     \<lparr>max_rng_trials = n, THRES = 1,
      predict = (\<lambda>m inp x. Inr (outs, x)),
      analyze_onnx_io = (\<lambda>m. Inr [(''i0'', \<lparr>shape = [1], dtype = DFloat64\<rparr>)])\<rparr>"

definition unbound :: "rng \<Rightarrow> 'x \<Rightarrow> ('m, 'x) ort_state" where
  "unbound g x = \<lparr>model = None, inp_spec = None, np_random = g, rf_exe = x\<rparr>"

subsection \<open>Invariants of the search loop\<close>

text \<open>
  \<open>flat\<close> lists the endpoints of a list of ranges in order.  \<open>range_inv seen rs\<close> is
  what every iteration of the outer loop of \<open>get_range\<close> keeps, for the seed points
  \<open>seen\<close> processed so far: the endpoints are non-decreasing, every range lies in
  \<open>[L, R]\<close> and contains a processed seed point.  \<open>within_inv a seen rs\<close> is the stronger
  invariant for a checker that is safe exactly inside \<open>[- a, a]\<close>: there is at most one
  range, it lies in \<open>[- a, a]\<close>, and it contains every processed seed point of
  \<open>[- a, a]\<close>.
\<close>

definition flat :: "range list \<Rightarrow> real list" where
  "flat rs = concat (map (\<lambda>(lo, hi). [lo, hi]) rs)"

definition range_inv :: "real list \<Rightarrow> range list \<Rightarrow> bool" where
  "range_inv seen rs =
     (sorted (flat rs) \<and>
      (\<forall>(lo, hi) \<in> set rs. L \<le> lo \<and> hi \<le> R \<and> (\<exists>p \<in> set seen. lo \<le> p \<and> p \<le> hi)))"


section \<open>Properties\<close>

subsection \<open>What counts as a safe execution\<close>

lemma has_nan_iff:
  "has_nan outs = (\<exists>(k, arr) \<in> set outs. \<exists>v \<in> set (nd_data arr). isnan v)"
  by (induction outs) (auto simp: list_ex_iff)

text \<open>
  Claim C5 says that a trial counts as safe iff its output mapping holds neither a NaN
  nor an Inf.  As stated this fails: \<open>has_nan\<close> asks \<^verbatim>\<open>np.isnan\<close> only, so an output
  whose only special value is an infinity is counted as safe.
\<close>

theorem has_nan_ignores_inf:
  "\<not> has_nan [(''o0'', \<lparr>nd_shape = [1], nd_dtype = DFloat64, nd_data = [PInf]\<rparr>)] \<and>
   list_ex isinf (nd_data \<lparr>nd_shape = [1], nd_dtype = DFloat64, nd_data = [PInf]\<rparr>)"
  by simp

text \<open>
  Claim C5, amended: an execution counts as safe (\<open>\<not> has_nan\<close>, the value added to
  \<^verbatim>\<open>succ\<close>) iff no output tensor holds a NaN; infinities play no part.
\<close>

theorem has_nan_safe_iff_no_nan:
  "(\<not> has_nan outs) = (\<forall>(k, arr) \<in> set outs. \<forall>v \<in> set (nd_data arr). \<not> isnan v)"
  by (auto simp: has_nan_iff)

theorem has_nan_safe_iff_no_nan_witness:
  "\<not> has_nan [(''o0'', \<lparr>nd_shape = [2], nd_dtype = DFloat64, nd_data = [Fin 1, NInf]\<rparr>)] \<and>
   has_nan [(''o0'', \<lparr>nd_shape = [2], nd_dtype = DFloat64, nd_data = [Fin 1, NaN]\<rparr>)]"
  using
    has_nan_safe_iff_no_nan
      [of "[(''o0'', \<lparr>nd_shape = [2], nd_dtype = DFloat64, nd_data = [Fin 1, NInf]\<rparr>)]"]
    has_nan_safe_iff_no_nan
      [of "[(''o0'', \<lparr>nd_shape = [2], nd_dtype = DFloat64, nd_data = [Fin 1, NaN]\<rparr>)]"]
  by simp

subsection \<open>The sampler\<close>










text \<open>
  The cast to \<^verbatim>\<open>float32\<close> moves the double \<open>1 / 10\<close> up, to
  \<open>0.100000001490116\<dots>\<close>.
\<close>

lemma floor_log_tenth: "\<lfloor>log 2 \<bar>1 / 10 :: real\<bar>\<rfloor> = - 4"
proof -
  have "(2 :: real) powr (- 4) \<le> 1 / 10" "(1 / 10 :: real) < 2 powr (- 3)"
    by (simp_all add: powr_minus)
  then have "\<lfloor>log 2 (1 / 10 :: real)\<rfloor> = - 4"
    by (intro floor_unique) (simp_all add: le_log_iff log_less_iff)
  then show ?thesis by simp
qed

lemma astype_float32_tenth: "astype DFloat32 (1 / 10) = Fin (13421773 / 134217728)"
proof -
  have ulp: "(2 :: real) powr of_int (max (- 126) \<lfloor>log 2 \<bar>1 / 10 :: real\<bar>\<rfloor> - 24 + 1) = 1 / 134217728"
    unfolding floor_log_tenth by (simp add: powr_minus)
  have fl: "\<lfloor>(1 / 10) / (1 / 134217728) :: real\<rfloor> = 13421772"
    by (intro floor_unique) simp_all
  have r: "round_half_even ((1 / 10) / (1 / 134217728)) = 13421773"
    unfolding round_half_even_def fl by simp
  have big: "\<not> (2 :: real) powr of_int (127 + 1) \<le> \<bar>of_int 13421773 * (1 / 134217728)\<bar>"
    by simp
  have "float_cast 24 (- 126) 127 (1 / 10) = Fin (of_int 13421773 * (1 / 134217728))"
    unfolding float_cast_def Let_def ulp r using big by simp
  then show ?thesis by simp
qed

text \<open>
  A seed outside \<open>[0, 2\<^sup>3\<^sup>2 - 1]\<close> is refused by \<^verbatim>\<open>np.random.seed\<close>, and the sampler
  raises before it draws.
\<close>

lemma gen_one_input_bad_seed:
  "sd < 0 \<or> 2 ^ 32 - 1 < sd \<Longrightarrow> gen_one_input spec l r (Some sd) g = Inl ValueError"
  by (auto simp: gen_one_input_def np_random_seed_def)



subsection \<open>Choosing a range before sampling\<close>

lemma randint_unit:
  assumes "unit_rng g" "0 < n"
  shows "np_random_randint (int n) g =
           Inr (nat \<lfloor>draws g 0 * real n\<rfloor>, snd (random_sample 1 g))"
    and "nat \<lfloor>draws g 0 * real n\<rfloor> < n"
proof -
  show "np_random_randint (int n) g =
           Inr (nat \<lfloor>draws g 0 * real n\<rfloor>, snd (random_sample 1 g))"
    using assms(2) by (simp add: np_random_randint_def random_sample_def)
  have u: "0 \<le> draws g 0" "draws g 0 < 1" using assms(1) by (auto simp: unit_rng_def)
  have "draws g 0 * real n < 1 * real n" using u assms(2) by (intro mult_strict_right_mono) auto
  then have "\<lfloor>draws g 0 * real n\<rfloor> < int n" by (simp add: floor_less_iff)
  then show "nat \<lfloor>draws g 0 * real n\<rfloor> < n" using assms(2) by linarith
qed

text \<open>
  Claim C6 says that \<open>gen_one_input_rngs\<close> falls back to the default range \<open>(0, 1)\<close>
  for an empty or null set of ranges.  As stated this fails for the empty list: only
  \<^verbatim>\<open>None\<close> is replaced by \<open>[(0, 1)]\<close>, and for \<open>[]\<close> the index draw
  \<^verbatim>\<open>np.random.randint(0)\<close> raises \<^verbatim>\<open>ValueError\<close>.
\<close>

theorem gen_one_input_rngs_empty_list_raises:
  "gen_one_input_rngs no_files (SpecDict [(''i0'', \<lparr>shape = [1], dtype = DFloat64\<rparr>)])
     (RngsList []) None (const_rng 0) = Inl ValueError"
  by (simp add: gen_one_input_rngs_def resolve_rngs_def resolve_spec_def np_random_randint_def)

text \<open>
  Claim C6, amended: for every input spec that resolves to a dictionary \<open>d\<close>, every seed
  and every generator of unit samples, \<open>gen_one_input_rngs\<close> (i) given \<^verbatim>\<open>None\<close> draws
  an index for the one-element list \<open>[(0, 1)]\<close> and samples from the default range
  \<open>(0, 1)\<close>; (ii) given a non-empty list samples from the range at the index that
  \<^verbatim>\<open>np.random.randint(len(rngs))\<close> draws, which is a valid index; (iii) given a path
  whose pickled object is a list of ranges behaves as if given that list.  In each case
  the sample is what \<open>gen_one_input\<close> returns for that range and seed, on the generator
  the index draw leaves.  (The empty list is not covered: it raises.)
\<close>

theorem gen_one_input_rngs_resolves_range:
  assumes "unit_rng g" and "resolve_spec ext sp = Inr d"
  shows "(\<exists>i g'. np_random_randint 1 g = Inr (i, g') \<and>
            gen_one_input_rngs ext sp RngsNone seed g = gen_one_input d 0 1 seed g') \<and>
         (rs \<noteq> [] \<longrightarrow>
           (\<exists>i g'. np_random_randint (int (length rs)) g = Inr (i, g') \<and> i < length rs \<and>
              gen_one_input_rngs ext sp (RngsList rs) seed g =
              gen_one_input d (fst (rs ! i)) (snd (rs ! i)) seed g')) \<and>
         (pickle_load ext p = Some (Some rs) \<longrightarrow>
           gen_one_input_rngs ext sp (RngsPath p) seed g =
           gen_one_input_rngs ext sp (RngsList rs) seed g)"
proof (intro conjI impI)
  have z: "nat \<lfloor>draws g 0 * real 1\<rfloor> = 0" using randint_unit(2) [OF assms(1), of 1] by simp
  have d1: "np_random_randint 1 g = Inr (0, snd (random_sample 1 g))"
    using randint_unit(1) [OF assms(1), of 1] z by simp
  moreover have "gen_one_input_rngs ext sp RngsNone seed g =
           gen_one_input d 0 1 seed (snd (random_sample 1 g))"
    using d1 assms(2) by (simp add: gen_one_input_rngs_def resolve_rngs_def)
  ultimately show "\<exists>i g'. np_random_randint 1 g = Inr (i, g') \<and>
            gen_one_input_rngs ext sp RngsNone seed g = gen_one_input d 0 1 seed g'"
    by blast
next
  assume ne: "rs \<noteq> []"
  then have pos: "0 < length rs" by simp
  define i where "i = nat \<lfloor>draws g 0 * real (length rs)\<rfloor>"
  have lt: "i < length rs" unfolding i_def by (rule randint_unit(2) [OF assms(1) pos])
  have dr: "np_random_randint (int (length rs)) g = Inr (i, snd (random_sample 1 g))"
    unfolding i_def by (rule randint_unit(1) [OF assms(1) pos])
  have "gen_one_input_rngs ext sp (RngsList rs) seed g =
              gen_one_input d (fst (rs ! i)) (snd (rs ! i)) seed (snd (random_sample 1 g))"
    using dr lt assms(2) by (simp add: gen_one_input_rngs_def resolve_rngs_def)
  then show "\<exists>i g'. np_random_randint (int (length rs)) g = Inr (i, g') \<and> i < length rs \<and>
              gen_one_input_rngs ext sp (RngsList rs) seed g =
              gen_one_input d (fst (rs ! i)) (snd (rs ! i)) seed g'"
    using dr lt by blast
next
  assume "pickle_load ext p = Some (Some rs)"
  then show "gen_one_input_rngs ext sp (RngsPath p) seed g =
           gen_one_input_rngs ext sp (RngsList rs) seed g"
    by (simp add: gen_one_input_rngs_def resolve_rngs_def)
qed

theorem gen_one_input_rngs_resolves_range_witness:
  "unit_rng (const_rng (1 / 2)) \<and>
   resolve_spec one_file (SpecDict [(''i0'', \<lparr>shape = [2], dtype = DFloat64\<rparr>)])
     = Inr [(''i0'', \<lparr>shape = [2], dtype = DFloat64\<rparr>)] \<and>
   map_sum id fst (gen_one_input_rngs one_file (SpecDict [(''i0'', \<lparr>shape = [2], dtype = DFloat64\<rparr>)])
      RngsNone None (const_rng (1 / 2)))
     = Inr [(''i0'', \<lparr>nd_shape = [2], nd_dtype = DFloat64, nd_data = [Fin (1 / 2), Fin (1 / 2)]\<rparr>)] \<and>
   [(- 1, 0), (2, 3 :: real)] \<noteq> [] \<and>
   map_sum id fst (np_random_randint 2 (const_rng (1 / 2))) = Inr 1 \<and>
   map_sum id fst (gen_one_input_rngs one_file (SpecDict [(''i0'', \<lparr>shape = [2], dtype = DFloat64\<rparr>)])
      (RngsList [(- 1, 0), (2, 3)]) None (const_rng (1 / 2)))
     = Inr [(''i0'', \<lparr>nd_shape = [2], nd_dtype = DFloat64, nd_data = [Fin (5 / 2), Fin (5 / 2)]\<rparr>)] \<and>
   pickle_load one_file ''domain.pkl'' = Some (Some [(- 1, 0), (2, 3)]) \<and>
   map_sum id fst (gen_one_input_rngs one_file (SpecDict [(''i0'', \<lparr>shape = [2], dtype = DFloat64\<rparr>)])
      (RngsPath ''domain.pkl'') None (const_rng (1 / 2)))
     = Inr [(''i0'', \<lparr>nd_shape = [2], nd_dtype = DFloat64, nd_data = [Fin (5 / 2), Fin (5 / 2)]\<rparr>)]"
proof -
  define G where "G = const_rng (1 / 2)"
  define G1 where "G1 = snd (random_sample 1 G)"
  define d where "d = [(''i0'', \<lparr>shape = [2], dtype = DFloat64\<rparr>)]"
  define rs :: "range list" where "rs = [(- 1, 0), (2, 3)]"
  have u: "unit_rng G" by (simp add: unit_rng_def const_rng_def G_def)
  have sp: "resolve_spec one_file (SpecDict d) = Inr d" by (simp add: resolve_spec_def)
  have pk: "pickle_load one_file ''domain.pkl'' = Some (Some rs)"
    by (simp add: one_file_def rs_def)
  have d1: "np_random_randint 1 G = Inr (0, G1)"
    by (simp add: np_random_randint_def random_sample_def G_def G1_def const_rng_def)
  have d2: "np_random_randint 2 G = Inr (1, G1)"
    by (simp add: np_random_randint_def random_sample_def G_def G1_def const_rng_def)
  have ev0: "map_sum id fst (gen_one_input d 0 1 None G1)
     = Inr [(''i0'', \<lparr>nd_shape = [2], nd_dtype = DFloat64, nd_data = [Fin (1 / 2), Fin (1 / 2)]\<rparr>)]"
    by (simp add: random_sample_def const_rng_def gen_one_input_def np_random_uniform_def
        upt_rec d_def G_def G1_def)
  have ev1: "map_sum id fst (gen_one_input d 2 3 None G1)
     = Inr [(''i0'', \<lparr>nd_shape = [2], nd_dtype = DFloat64, nd_data = [Fin (5 / 2), Fin (5 / 2)]\<rparr>)]"
    by (simp add: random_sample_def const_rng_def gen_one_input_def np_random_uniform_def
        upt_rec d_def G_def G1_def)
  note inst = gen_one_input_rngs_resolves_range [OF u sp, of None rs "''domain.pkl''"]
  from inst obtain i g' where a: "np_random_randint 1 G = Inr (i, g')"
    "gen_one_input_rngs one_file (SpecDict d) RngsNone None G = gen_one_input d 0 1 None g'"
    by blast
  from a(1) d1 have "g' = G1" by simp
  with a(2) ev0 have none: "map_sum id fst (gen_one_input_rngs one_file (SpecDict d) RngsNone None G)
     = Inr [(''i0'', \<lparr>nd_shape = [2], nd_dtype = DFloat64, nd_data = [Fin (1 / 2), Fin (1 / 2)]\<rparr>)]"
    by simp
  have ne: "rs \<noteq> []" by (simp add: rs_def)
  with inst obtain j g2 where b: "np_random_randint (int (length rs)) G = Inr (j, g2)"
    "gen_one_input_rngs one_file (SpecDict d) (RngsList rs) None G =
       gen_one_input d (fst (rs ! j)) (snd (rs ! j)) None g2"
    by blast
  from b(1) d2 have "j = 1" "g2 = G1" by (simp_all add: rs_def)
  with b(2) ev1 have lst: "map_sum id fst (gen_one_input_rngs one_file (SpecDict d) (RngsList rs) None G)
     = Inr [(''i0'', \<lparr>nd_shape = [2], nd_dtype = DFloat64, nd_data = [Fin (5 / 2), Fin (5 / 2)]\<rparr>)]"
    by (simp add: rs_def)
  from inst pk have "gen_one_input_rngs one_file (SpecDict d) (RngsPath ''domain.pkl'') None G
     = gen_one_input_rngs one_file (SpecDict d) (RngsList rs) None G" by blast
  with lst have path: "map_sum id fst (gen_one_input_rngs one_file (SpecDict d) (RngsPath ''domain.pkl'') None G)
     = Inr [(''i0'', \<lparr>nd_shape = [2], nd_dtype = DFloat64, nd_data = [Fin (5 / 2), Fin (5 / 2)]\<rparr>)]"
    by simp
  have idx: "map_sum id fst (np_random_randint 2 G) = Inr 1" using d2 by simp
  show ?thesis
    using u sp none ne idx lst pk path unfolding G_def d_def rs_def by blast
qed

subsection \<open>The decision procedure of \<^verbatim>\<open>ORTNaNChecker\<close>\<close>










text \<open>
  Claim C9 says that a decision query issued before \<open>load_model\<close> fails with
  \<^verbatim>\<open>UnboundModelError\<close>.  As stated this fails for a checker built with
  \<open>max_rng_trials = 0\<close>: its loop body never runs, no attribute is read, and the query
  returns \<^verbatim>\<open>True\<close>.
\<close>

theorem ort_no_nan_unbound_no_trials:
  "ort_no_nan (fixed_cfg 0 []) 0 1 (unbound (const_rng 0) ())
     = Inr (True, unbound (const_rng 0) ())"
  by (simp add: ort_no_nan_def py_range_def fixed_cfg_def)

text \<open>
  Claim C9, amended: for every checker with \<open>max_rng_trials \<ge> 1\<close>, a decision query
  issued while \<^verbatim>\<open>inp_spec\<close> is unset (so before any \<open>load_model\<close>) fails, and the
  exception is Python's \<^verbatim>\<open>AttributeError\<close>, raised by the first read of
  \<^verbatim>\<open>self.inp_spec\<close>; the code defines no exception class of its own.
\<close>

theorem ort_no_nan_unbound:
  assumes "inp_spec s = None" and "0 < max_rng_trials cfg"
  shows "ort_no_nan cfg l r s = Inl AttributeError"
proof -
  have "py_range (max_rng_trials cfg) = 0 # [0 + 1..max_rng_trials cfg - 1]"
    unfolding py_range_def using assms(2) by (intro upto_rec1) simp
  then show ?thesis using assms(1) by (simp add: ort_no_nan_def)
qed

theorem ort_no_nan_unbound_witness:
  "inp_spec (unbound (const_rng 0) () :: (unit, unit) ort_state) = None \<and>
   0 < max_rng_trials (fixed_cfg 3 []) \<and>
   ort_no_nan (fixed_cfg 3 []) 0 1 (unbound (const_rng 0) ()) = Inl AttributeError"
proof -
  have a: "inp_spec (unbound (const_rng 0) () :: (unit, unit) ort_state) = None"
    by (simp add: unbound_def)
  have b: "0 < max_rng_trials (fixed_cfg 3 [])" by (simp add: fixed_cfg_def)
  show ?thesis using a b ort_no_nan_unbound [OF a b, of 0 1] by simp
qed

subsection \<open>The seed points and the bisection helper\<close>

lemmas seed_points_eq = seed_points_def

lemma seed_points_sorted: "sorted seed_points"
  by (simp add: seed_points_eq)

lemma seed_points_bounds: "\<forall>p \<in> set seed_points. L \<le> p \<and> p \<le> R"
  by (simp add: seed_points_eq L_def R_def)

lemma bs_loop_stop: "\<not> EPS < r - l \<Longrightarrow> bs_loop checker rof l r s = Inr (r, s)"
  by (simp add: bs_loop.simps [of checker rof l r s])

lemma bs_loop_raise:
  "EPS < r - l \<Longrightarrow> checker ((l + r) / 2) s = Inl e \<Longrightarrow> bs_loop checker rof l r s = Inl e"
  by (simp add: bs_loop.simps [of checker rof l r s])

lemma bs_loop_first:
  "EPS < r - l \<Longrightarrow> checker ((l + r) / 2) s = Inr (True, s1) \<Longrightarrow>
   bs_loop checker True l r s = Inr ((l + r) / 2, s1)"
  by (simp add: bs_loop.simps [of checker True l r s])

lemma bs_loop_left:
  "EPS < r - l \<Longrightarrow> checker ((l + r) / 2) s = Inr (True, s1) \<Longrightarrow>
   bs_loop checker False l r s = bs_loop checker False l ((l + r) / 2) s1"
  by (simp add: bs_loop.simps [of checker False l r s])

lemma bs_loop_right:
  "EPS < r - l \<Longrightarrow> checker ((l + r) / 2) s = Inr (False, s1) \<Longrightarrow>
   bs_loop checker rof l r s = bs_loop checker rof ((l + r) / 2) r s1"
  by (simp add: bs_loop.simps [of checker rof l r s])

lemma bs_loop_bounds:
  "l \<le> r \<Longrightarrow> bs_loop checker rof l r s = Inr (x, s') \<Longrightarrow> l \<le> x \<and> x \<le> r"
proof (induction checker rof l r s rule: bs_loop.induct)
  case (1 checker rof l r s)
  show ?case
  proof (cases "EPS < r - l")
    case False
    then show ?thesis using "1.prems" by (simp add: bs_loop_stop)
  next
    case True
    have mid: "l \<le> (l + r) / 2" "(l + r) / 2 \<le> r" using "1.prems"(1) by simp_all
    show ?thesis
    proof (cases "checker ((l + r) / 2) s")
      case (Inl e)
      then show ?thesis using "1.prems"(2) True by (simp add: bs_loop_raise)
    next
      case (Inr res)
      obtain ok s1 where res: "res = (ok, s1)" by (cases res)
      have c: "checker ((l + r) / 2) s = Inr (ok, s1)" using Inr res by simp
      show ?thesis
      proof (cases ok)
        case False
        then have "bs_loop checker rof ((l + r) / 2) r s1 = Inr (x, s')"
          using "1.prems"(2) True c by (simp add: bs_loop_right)
        then have "(l + r) / 2 \<le> x \<and> x \<le> r"
          using "1.IH"(2) [OF True c refl False mid(2)] by simp
        then show ?thesis using mid by simp
      next
        case ok: True
        show ?thesis
        proof (cases rof)
          case True
          then have "x = (l + r) / 2"
            using "1.prems"(2) \<open>EPS < r - l\<close> c ok by (simp add: bs_loop_first)
          then show ?thesis using mid by simp
        next
          case False
          then have "bs_loop checker rof l ((l + r) / 2) s1 = Inr (x, s')"
            using "1.prems"(2) \<open>EPS < r - l\<close> c ok by (simp add: bs_loop_left)
          then have "l \<le> x \<and> x \<le> (l + r) / 2"
            using "1.IH"(1) [OF \<open>EPS < r - l\<close> c refl ok False mid(1)] by simp
          then show ?thesis using mid by simp
        qed
      qed
    qed
  qed
qed

lemma binary_search_bounds:
  "l \<le> r \<Longrightarrow> binary_search l r checker rof s = Inr (x, s') \<Longrightarrow> l \<le> x \<and> x \<le> r"
  by (auto simp: binary_search_def split: if_splits sum.splits dest: bs_loop_bounds)








subsection \<open>The outer loop keeps its ranges in order\<close>

lemma flat_Cons: "flat ((lo, hi) # rs) = lo # hi # flat rs"
  by (simp add: flat_def)

lemma fst_in_flat: "(lo, hi) \<in> set rs \<Longrightarrow> lo \<in> set (flat rs)"
proof (induction rs)
  case Nil
  then show ?case by simp
next
  case (Cons p rs)
  obtain a b where p: "p = (a, b)" by (cases p)
  show ?case using Cons by (auto simp: p flat_Cons)
qed

lemma sorted_flat_pairs:
  "sorted (flat rs) \<Longrightarrow>
   sorted (map fst rs) \<and> sorted_wrt (\<lambda>a b. snd a \<le> fst b) rs \<and> (\<forall>(lo, hi) \<in> set rs. lo \<le> hi)"
proof (induction rs)
  case Nil
  then show ?case by simp
next
  case (Cons p rs)
  obtain lo hi where p: "p = (lo, hi)" by (cases p)
  from Cons.prems have s: "lo \<le> hi" "\<forall>x \<in> set (flat rs). hi \<le> x" "sorted (flat rs)"
    by (auto simp: p flat_Cons)
  have later: "\<forall>b \<in> set rs. hi \<le> fst b"
  proof
    fix b assume b: "b \<in> set rs"
    obtain c d where "b = (c, d)" by (cases b)
    with b fst_in_flat s(2) show "hi \<le> fst b" by fastforce
  qed
  then have "\<forall>b \<in> set rs. lo \<le> fst b" using s(1) by force
  with Cons.IH [OF s(3)] s(1) later show ?case by (simp add: p)
qed

lemma flat_snoc: "flat (rs @ [(l, r)]) = flat rs @ [l, r]"
  by (simp add: flat_def)

lemma update_last: "rs \<noteq> [] \<Longrightarrow> rs[length rs - 1 := x] = butlast rs @ [x]"
  by (induction rs rule: rev_induct) (simp_all add: list_update_append)

lemma flat_le_last:
  assumes "sorted (flat rs)" "rs \<noteq> []" "x \<in> set (flat rs)"
  shows "x \<le> snd (last rs)"
proof -
  obtain bl lo hi where rs: "rs = bl @ [(lo, hi)]"
    using assms(2) by (metis snoc_eq_iff_butlast surj_pair)
  have "sorted (flat bl @ [lo, hi])" using assms(1) by (simp add: rs flat_snoc)
  then have "\<forall>y \<in> set (flat bl). y \<le> hi" "lo \<le> hi" by (auto simp: sorted_append)
  then show ?thesis using assms(3) by (auto simp: rs flat_snoc)
qed

lemma range_inv_member:
  "range_inv seen rs \<Longrightarrow> (lo, hi) \<in> set rs \<Longrightarrow>
   L \<le> lo \<and> hi \<le> R \<and> (\<exists>p \<in> set seen. lo \<le> p \<and> p \<le> hi)"
  by (auto simp: range_inv_def)

lemma last_beyond:
  assumes "range_inv seen rs" "\<forall>q \<in> set seen. q \<le> p" "\<not> included rs p" "rs \<noteq> []"
  shows "fst (last rs) \<le> p \<and> snd (last rs) < p \<and> L \<le> fst (last rs) \<and>
         fst (last rs) \<le> snd (last rs)"
proof -
  obtain lo hi where l: "last rs = (lo, hi)" by (cases "last rs")
  then have mem: "(lo, hi) \<in> set rs" using assms(4) last_in_set by metis
  from range_inv_member [OF assms(1) mem] obtain q where
    q: "q \<in> set seen" "lo \<le> q" "q \<le> hi" and lo: "L \<le> lo" by blast
  have "lo \<le> p" using q assms(2) by force
  moreover have "\<not> (lo \<le> p \<and> p \<le> hi)"
    using assms(3) mem by (auto simp: included_def list_ex_iff)
  ultimately show ?thesis using l lo q by simp
qed

lemma new_range_inv:
  assumes inv: "range_inv seen rs" and le: "\<forall>q \<in> set seen. q \<le> p" and "L \<le> p" and "p \<le> R"
    and ni: "\<not> included rs p" and run: "new_range nc p rs s = Inr (rs', s')"
  shows "range_inv (seen @ [p]) rs' \<and>
    (\<exists>l r. rs' = rs @ [(l, r)] \<and> l \<le> p \<and> p \<le> r \<and> (rs \<noteq> [] \<longrightarrow> snd (last rs) \<le> l))"
proof -
  define last_r where "last_r = (if length rs = 0 then L else snd (last rs))"
  have last_le: "last_r \<le> p"
    using last_beyond [OF inv le ni] \<open>L \<le> p\<close> by (auto simp: last_r_def)
  from run obtain l s1 r' where
    bl: "binary_search last_r p (\<lambda>l. no_nan nc l p) True s = Inr (l, s1)" and
    br: "binary_search (- R) (- p) (\<lambda>r. no_nan nc l (- r)) True s1 = Inr (r', s')" and
    rs': "rs' = rs @ [(l, - r')]"
    by (auto simp: new_range_def last_r_def Let_def split: sum.splits prod.splits)
  have l: "last_r \<le> l" "l \<le> p" using binary_search_bounds [OF last_le bl] by simp_all
  have "- R \<le> - p" using \<open>p \<le> R\<close> by simp
  from binary_search_bounds [OF this br] have r: "p \<le> - r'" "- r' \<le> R" by simp_all
  have below: "\<forall>x \<in> set (flat rs). x \<le> l"
  proof
    fix x assume x: "x \<in> set (flat rs)"
    then have ne: "rs \<noteq> []" by (auto simp: flat_def)
    have "sorted (flat rs)" using inv by (simp add: range_inv_def)
    from flat_le_last [OF this ne x] have "x \<le> snd (last rs)" .
    then show "x \<le> l" using l(1) ne by (simp add: last_r_def)
  qed
  have Ll: "L \<le> l"
  proof (cases "rs = []")
    case True
    then show ?thesis using l(1) by (simp add: last_r_def)
  next
    case False
    from last_beyond [OF inv le ni False] have "L \<le> snd (last rs)" by simp
    then show ?thesis using l(1) False by (simp add: last_r_def)
  qed
  have "sorted (flat rs')"
    using inv below l r by (auto simp: rs' flat_snoc sorted_append range_inv_def)
  moreover have "\<forall>(lo, hi) \<in> set rs'. L \<le> lo \<and> hi \<le> R \<and>
      (\<exists>q \<in> set (seen @ [p]). lo \<le> q \<and> q \<le> hi)"
    using inv Ll l r by (auto simp: rs' range_inv_def)
  moreover have "rs \<noteq> [] \<longrightarrow> snd (last rs) \<le> l" using l(1) by (auto simp: last_r_def)
  ultimately show ?thesis using rs' l(2) r(1) by (auto simp: range_inv_def)
qed

lemma extend_inv:
  assumes inv: "range_inv seen rs" and le: "\<forall>q \<in> set seen. q \<le> p" and "p \<le> R"
    and ni: "\<not> included rs p" and ne: "rs \<noteq> []"
  shows "range_inv (seen @ [p]) (rs[length rs - 1 := (fst (last rs), p)])"
proof -
  obtain bl lo hi where rs: "rs = bl @ [(lo, hi)]"
    using ne by (metis snoc_eq_iff_butlast surj_pair)
  have upd: "rs[length rs - 1 := (fst (last rs), p)] = bl @ [(lo, p)]"
    using update_last [OF ne] by (simp add: rs)
  from last_beyond [OF inv le ni ne] have lo: "lo \<le> p" "L \<le> lo" by (simp_all add: rs)
  have "sorted (flat bl @ [lo, hi])" using inv by (simp add: rs flat_snoc range_inv_def)
  then have "sorted (flat bl @ [lo, p])" using lo(1) by (auto simp: sorted_append)
  moreover have "\<forall>(lo, hi) \<in> set (bl @ [(lo, p)]). L \<le> lo \<and> hi \<le> R \<and>
      (\<exists>q \<in> set (seen @ [p]). lo \<le> q \<and> q \<le> hi)"
    using inv lo \<open>p \<le> R\<close> by (auto simp: rs range_inv_def)
  ultimately show ?thesis unfolding upd by (simp add: range_inv_def flat_snoc)
qed

lemma range_inv_more: "range_inv seen rs \<Longrightarrow> range_inv (seen @ [p]) rs"
  by (fastforce simp: range_inv_def)

lemma get_range_step_inv:
  assumes inv: "range_inv seen rs" and le: "\<forall>q \<in> set seen. q \<le> p" and "L \<le> p" and "p \<le> R"
    and run: "get_range_step nc p rs s = Inr (rs', s')"
  shows "range_inv (seen @ [p]) rs'"
proof (cases "included rs p")
  case True
  then have "rs' = rs" using run by (simp add: get_range_step_def)
  then show ?thesis using inv by (simp add: range_inv_more)
next
  case ni: False
  then obtain ok s1 where q: "no_nan nc p p s = Inr (ok, s1)"
    using run by (cases "no_nan nc p p s") (auto simp: get_range_step_def)
  show ?thesis
  proof (cases ok)
    case False
    then have "rs' = rs" using run ni q by (simp add: get_range_step_def)
    then show ?thesis using inv by (simp add: range_inv_more)
  next
    case ok: True
    show ?thesis
    proof (cases "rs = []")
      case True
      then have "new_range nc p rs s1 = Inr (rs', s')"
        using run ni q ok by (simp add: get_range_step_def)
      from new_range_inv [OF inv le \<open>L \<le> p\<close> \<open>p \<le> R\<close> ni this] show ?thesis by simp
    next
      case ne: False
      then obtain ext s2 where e: "no_nan nc (fst (last rs)) p s1 = Inr (ext, s2)"
        using run ni q ok
        by (cases "no_nan nc (fst (last rs)) p s1") (auto simp: get_range_step_def)
      show ?thesis
      proof (cases ext)
        case True
        then have "rs' = rs[length rs - 1 := (fst (last rs), p)]"
          using run ni q ok ne e by (simp add: get_range_step_def)
        then show ?thesis using extend_inv [OF inv le \<open>p \<le> R\<close> ni ne] by simp
      next
        case False
        then have "new_range nc p rs s2 = Inr (rs', s')"
          using run ni q ok ne e by (simp add: get_range_step_def)
        from new_range_inv [OF inv le \<open>L \<le> p\<close> \<open>p \<le> R\<close> ni this] show ?thesis by simp
      qed
    qed
  qed
qed

lemma get_range_loop_inv:
  assumes "range_inv seen rs" "sorted (seen @ ps)" "\<forall>p \<in> set ps. L \<le> p \<and> p \<le> R"
    "get_range_loop nc ps rs s = Inr (rs', s')"
  shows "range_inv (seen @ ps) rs'"
  using assms
proof (induction ps arbitrary: seen rs s)
  case Nil
  then show ?case by simp
next
  case (Cons p ps)
  from Cons.prems(4) obtain rs1 s1 where
    st: "get_range_step nc p rs s = Inr (rs1, s1)" and
    rest: "get_range_loop nc ps rs1 s1 = Inr (rs', s')"
    by (auto split: sum.splits)
  have le: "\<forall>q \<in> set seen. q \<le> p" using Cons.prems(2) by (auto simp: sorted_append)
  have inv1: "range_inv (seen @ [p]) rs1"
    using get_range_step_inv [OF Cons.prems(1) le _ _ st] Cons.prems(3) by simp
  have "range_inv ((seen @ [p]) @ ps) rs'"
    using Cons.IH [OF inv1 _ _ rest] Cons.prems(2,3) by simp
  then show ?case by simp
qed

lemma get_range_inv:
  assumes "get_range nc s = Inr (res, s')"
  shows "res \<noteq> Some [] \<and> (\<forall>rs. res = Some rs \<longrightarrow> range_inv seed_points rs)"
proof -
  from assms obtain rs where
    loop: "get_range_loop nc seed_points [] s = Inr (rs, s')" and
    res: "res = (if length rs = 0 then None else Some rs)"
    by (auto simp: get_range_def split: sum.splits)
  have "range_inv [] []" by (simp add: range_inv_def flat_def)
  from get_range_loop_inv [OF this _ _ loop] seed_points_sorted seed_points_bounds
  have "range_inv seed_points rs" by simp
  then show ?thesis using res by auto
qed

subsection \<open>The search against a checker that is safe exactly inside an interval\<close>








subsection \<open>The first point at which the checker holds\<close>




subsection \<open>Searches, evaluated\<close>


lemma eval_between:
  "infer_domain (pure_checker (safe_between (- 2) (- 9 / 10)) :: (unit, unit) nan_checker) () ()
     = Inr (Some [(- (25 / 16), - (117 / 128))], ())"
  by (simp add: infer_domain_def get_range_def seed_points_eq get_range_step_def included_def
      new_range_def Let_def binary_search_def bs_loop.simps pure_checker_def safe_between_def
      L_def R_def EPS_def)

lemma eval_narrow:
  "get_range (pure_checker (narrow (21 / 2)) :: (unit, unit) nan_checker) ()
     = Inr (Some [(- 10, 3 / 8), (3 / 8, 10)], ())"
  by (simp add: get_range_def seed_points_eq get_range_step_def included_def
      new_range_def Let_def binary_search_def bs_loop.simps pure_checker_def narrow_def
      L_def R_def EPS_def)


lemma eval_bs_full:
  "binary_search 0 1 (counted (from_threshold (1 / 4))) False 0 = Inr (1 / 4, 11)"
  by (simp add: binary_search_def bs_loop.simps counted_def from_threshold_def EPS_def)



subsection \<open>Claims about the range search\<close>




text \<open>
  Claim C3: if the checker accepts the range \<open>(0, 1)\<close> after \<^verbatim>\<open>load_model\<close>, then
  \<open>infer_domain\<close> returns exactly \<open>[(0, 1)]\<close>, in the state that one decision query
  leaves; on the logging checker the log is the single query \<open>(0, 1)\<close>, so the search
  of \<open>get_range\<close> (which would log further queries) is not run.
\<close>

theorem infer_domain_fast_path:
  assumes "load_model nc m s = Inr s0" and "no_nan nc 0 1 s0 = Inr (True, s1)"
  shows "infer_domain nc m s = Inr (Some [(0, 1)], s1) \<and>
         infer_domain (logged nc) m (s, []) = Inr (Some [(0, 1)], (s1, [(0, 1)]))"
  using assms by (simp add: infer_domain_def logged_def)

theorem infer_domain_fast_path_witness:
  "load_model (pure_checker (safe_within 1) :: (unit, unit) nan_checker) () () = Inr () \<and>
   no_nan (pure_checker (safe_within 1) :: (unit, unit) nan_checker) 0 1 () = Inr (True, ()) \<and>
   infer_domain (pure_checker (safe_within 1) :: (unit, unit) nan_checker) () ()
     = Inr (Some [(0, 1)], ()) \<and>
   infer_domain (logged (pure_checker (safe_within 1) :: (unit, unit) nan_checker)) () ((), [])
     = Inr (Some [(0, 1)], ((), [(0, 1)]))"
proof -
  have l: "load_model (pure_checker (safe_within 1) :: (unit, unit) nan_checker) () () = Inr ()"
    by (simp add: pure_checker_def)
  have q: "no_nan (pure_checker (safe_within 1) :: (unit, unit) nan_checker) 0 1 () = Inr (True, ())"
    by (simp add: pure_checker_def safe_within_def)
  show ?thesis using l q infer_domain_fast_path [OF l q] by simp
qed

text \<open>
  Claim C4 says that the ranges \<open>get_range\<close> produces are pairwise disjoint and sorted
  ascending by their low endpoint, for every checker behaviour.  As stated this fails:
  when the extension query is rejected but the checker accepts the stretch from the
  previous upper bound to the seed point, the helper returns that upper bound as the new
  lower bound, and the two ranges share a point.  The checker here accepts a range iff
  it is at most \<open>21 / 2\<close> wide.
\<close>

theorem get_range_overlap_at_endpoint:
  "get_range (pure_checker (narrow (21 / 2)) :: (unit, unit) nan_checker) ()
     = Inr (Some [(- 10, 3 / 8), (3 / 8, 10)], ()) \<and>
   {- 10 .. 3 / 8} \<inter> {3 / 8 .. 10 :: real} \<noteq> {}"
proof -
  have "(3 / 8 :: real) \<in> {- 10 .. 3 / 8} \<inter> {3 / 8 .. 10}" by simp
  then have "{- 10 .. 3 / 8} \<inter> {3 / 8 .. 10 :: real} \<noteq> {}" by blast
  then show ?thesis using eval_narrow by blast
qed

text \<open>
  Claim C4, amended: for every checker behaviour, the ranges \<open>get_range\<close> produces are
  sorted ascending by their low endpoint, each has \<open>low \<le> high\<close>, and every range ends
  no later than each later range starts (\<open>high \<le> low\<close>): two ranges share at most one
  endpoint.
\<close>

theorem get_range_sorted_nonoverlapping:
  assumes "get_range nc s = Inr (Some rs, s')"
  shows "sorted (map fst rs) \<and> sorted_wrt (\<lambda>a b. snd a \<le> fst b) rs \<and>
         (\<forall>(lo, hi) \<in> set rs. lo \<le> hi)"
proof -
  from get_range_inv [OF assms] have "range_inv seed_points rs" by simp
  then have "sorted (flat rs)" by (simp add: range_inv_def)
  then show ?thesis by (rule sorted_flat_pairs)
qed

theorem get_range_sorted_nonoverlapping_witness:
  "get_range (pure_checker (narrow (21 / 2)) :: (unit, unit) nan_checker) ()
     = Inr (Some [(- 10, 3 / 8), (3 / 8, 10)], ()) \<and>
   sorted (map fst ([(- 10, 3 / 8), (3 / 8, 10)] :: range list)) \<and>
   sorted_wrt (\<lambda>a b. snd a \<le> fst b) ([(- 10, 3 / 8), (3 / 8, 10)] :: range list)"
  using eval_narrow get_range_sorted_nonoverlapping [OF eval_narrow] by simp

lemma get_range_loop_all_rejected:
  assumes "\<forall>p \<in> set ps. \<forall>s. \<exists>s'. no_nan nc p p s = Inr (False, s')"
  shows "\<exists>s'. get_range_loop nc ps [] s = Inr ([], s')"
  using assms
proof (induction ps arbitrary: s)
  case Nil
  then show ?case by simp
next
  case (Cons p ps)
  then obtain s1 where "no_nan nc p p s = Inr (False, s1)" by force
  then have "get_range_step nc p [] s = Inr ([], s1)"
    by (simp add: get_range_step_def included_def)
  moreover obtain s' where "get_range_loop nc ps [] s1 = Inr ([], s')"
    using Cons.IH [of s1] Cons.prems by auto
  ultimately show ?case by simp
qed

text \<open>
  Claim C7: when no seed point leads to an accepted range, that is when the outer loop
  ends with an empty list, \<open>get_range\<close> returns \<^verbatim>\<open>None\<close>: a value, neither an
  exception nor an empty list.  In particular this is so for every checker that rejects
  the point query \<open>(p, p)\<close> at every seed point \<open>p\<close>, whatever its state.
\<close>

theorem get_range_none_when_nothing_accepted:
  "(get_range_loop nc seed_points [] s = Inr ([], s') \<longrightarrow> get_range nc s = Inr (None, s')) \<and>
   ((\<forall>p \<in> set seed_points. \<forall>s. \<exists>s'. no_nan nc p p s = Inr (False, s')) \<longrightarrow>
      (\<exists>s'. get_range nc s = Inr (None, s')))"
proof (intro conjI impI)
  assume "get_range_loop nc seed_points [] s = Inr ([], s')"
  then show "get_range nc s = Inr (None, s')" by (simp add: get_range_def)
next
  assume "\<forall>p \<in> set seed_points. \<forall>s. \<exists>s'. no_nan nc p p s = Inr (False, s')"
  from get_range_loop_all_rejected [OF this, of s]
  obtain s' where "get_range_loop nc seed_points [] s = Inr ([], s')" by blast
  then have "get_range nc s = Inr (None, s')" by (simp add: get_range_def)
  then show "\<exists>s'. get_range nc s = Inr (None, s')" by blast
qed

theorem get_range_none_when_nothing_accepted_witness:
  "list_all (\<lambda>p. \<not> safe_within (1 / 20) p p) seed_points \<and>
   get_range_loop (pure_checker (safe_within (1 / 20)) :: (unit, unit) nan_checker)
     seed_points [] () = Inr ([], ()) \<and>
   get_range (pure_checker (safe_within (1 / 20)) :: (unit, unit) nan_checker) ()
     = Inr (None, ())"
proof -
  have rej: "list_all (\<lambda>p. \<not> safe_within (1 / 20) p p) seed_points"
    by (simp add: seed_points_eq safe_within_def)
  then have all: "\<forall>p \<in> set seed_points. \<forall>s. \<exists>s'.
      no_nan (pure_checker (safe_within (1 / 20)) :: (unit, unit) nan_checker) p p s = Inr (False, s')"
    by (simp add: list_all_iff pure_checker_def)
  have loop: "get_range_loop (pure_checker (safe_within (1 / 20)) :: (unit, unit) nan_checker)
     seed_points [] () = Inr ([], ())"
    by (simp add: seed_points_eq get_range_step_def included_def pure_checker_def safe_within_def)
  from get_range_none_when_nothing_accepted
    [of "pure_checker (safe_within (1 / 20)) :: (unit, unit) nan_checker" "()" "()"] loop all
  have "get_range (pure_checker (safe_within (1 / 20)) :: (unit, unit) nan_checker) ()
     = Inr (None, ())" by blast
  then show ?thesis using rej loop by blast
qed

text \<open>
  Claim C10: \<open>infer_domain\<close> never returns an empty list.  Its result is \<^verbatim>\<open>None\<close> or
  a non-empty list of ranges, each of which lies within \<open>[L, R]\<close>, has \<open>low \<le> high\<close>
  and contains a seed point (for a range of the search, the seed point it was created
  at: see \<open>new_range_inv\<close>).
\<close>

theorem infer_domain_result_shape:
  assumes "infer_domain nc m s = Inr (res, s')"
  shows "res \<noteq> Some [] \<and>
    (\<forall>rs. res = Some rs \<longrightarrow>
       (\<forall>(lo, hi) \<in> set rs. L \<le> lo \<and> lo \<le> hi \<and> hi \<le> R \<and>
          (\<exists>p \<in> set seed_points. lo \<le> p \<and> p \<le> hi)))"
proof -
  from assms obtain s0 ok s1 where
    q: "no_nan nc 0 1 s0 = Inr (ok, s1)" and
    r: "if ok then res = Some [(0, 1)] else get_range nc s1 = Inr (res, s')"
    by (auto simp: infer_domain_def split: sum.splits if_splits)
  show ?thesis
  proof (cases ok)
    case True
    have "(1 :: real) \<in> set seed_points" by (simp add: seed_points_eq)
    then have "\<exists>p \<in> set seed_points. 0 \<le> p \<and> p \<le> 1" by (intro bexI [of _ 1]) simp_all
    then show ?thesis using r True by (simp add: L_def R_def)
  next
    case False
    then have g: "get_range nc s1 = Inr (res, s')" using r by simp
    from get_range_inv [OF g] have ne: "res \<noteq> Some []"
      and inv: "\<forall>rs. res = Some rs \<longrightarrow> range_inv seed_points rs" by simp_all
    have "\<forall>rs. res = Some rs \<longrightarrow>
       (\<forall>(lo, hi) \<in> set rs. L \<le> lo \<and> lo \<le> hi \<and> hi \<le> R \<and>
          (\<exists>p \<in> set seed_points. lo \<le> p \<and> p \<le> hi))"
    proof (intro allI impI)
      fix rs assume "res = Some rs"
      then have "range_inv seed_points rs" using inv by simp
      then show "\<forall>(lo, hi) \<in> set rs. L \<le> lo \<and> lo \<le> hi \<and> hi \<le> R \<and>
          (\<exists>p \<in> set seed_points. lo \<le> p \<and> p \<le> hi)"
        by (fastforce simp: range_inv_def)
    qed
    then show ?thesis using ne by simp
  qed
qed
theorem infer_domain_result_shape_witness:
  "infer_domain (pure_checker (safe_between (- 2) (- 9 / 10)) :: (unit, unit) nan_checker) () ()
     = Inr (Some [(- (25 / 16), - (117 / 128))], ()) \<and>
   L \<le> - (25 / 16) \<and> - (25 / 16) \<le> (- (117 / 128) :: real) \<and> - (117 / 128) \<le> R \<and>
   (\<exists>p \<in> set seed_points. - (25 / 16) \<le> p \<and> p \<le> - (117 / 128))"
  using eval_between infer_domain_result_shape [OF eval_between] by simp

end
